theory Spec2Isabelle
  imports Main "HOL-Library.AList"
begin

section \<open>The session manager of app.py\<close>

text \<open>
  The program is one Python module, \<^verbatim>\<open>app.py\<close>. Its three handlers
  \<^verbatim>\<open>add_files\<close>, \<^verbatim>\<open>delete_files\<close> and \<^verbatim>\<open>run_search\<close> act on two pieces of
  state: the directory \<^verbatim>\<open>SESSIONS_DIR\<close> on disk and the module-level
  \<^verbatim>\<open>document_store\<close>. Both are passed explicitly here and returned updated; an
  exception leaves the effects made before it in place, so every handler returns the new
  state together with either the exception or the returned string.

  Scope of the model.
  \<^item> A Python \<^verbatim>\<open>str\<close> is a \<open>string\<close> holding its UTF-8 bytes. The source
    searches for and rewrites ASCII characters only (\<^verbatim>\<open>/\<close>, \<^verbatim>\<open>.\<close>, newline,
    the letters of the three extensions), and no byte of a multi-byte UTF-8 sequence is
    ASCII, so these operations agree with Python's on code points. \<^verbatim>\<open>str.strip\<close>
    removes the UTF-8 encodings of the characters for which \<^verbatim>\<open>str.isspace\<close> holds;
    \<^verbatim>\<open>str.lower\<close> is modelled on ASCII, which decides the same extensions (the one
    other character that lowers to an ASCII letter, U+212A, lowers to \<^verbatim>\<open>k\<close>).
  \<^item> The file system is the tree below \<^verbatim>\<open>SESSIONS_DIR\<close>, which line 15 creates at
    import. A directory is the list of its entries in enumeration order. Symbolic links,
    permissions and the limits of the host (free space, name length) are outside the model.
  \<^item> \<^verbatim>\<open>user_id\<close> is \<^verbatim>\<open>str(uuid.uuid4())\<close> at its only origin (line 87): one path
    component. The model takes \<^verbatim>\<open>os.path.join(SESSIONS_DIR, user_id)\<close> to denote the
    entry of \<^verbatim>\<open>SESSIONS_DIR\<close> named \<^verbatim>\<open>user_id\<close>, which is what it denotes exactly
    when \<open>session_token user_id\<close> holds; the theorems carry that hypothesis.
  \<^item> The Haystack objects (converters, preprocessor, pipeline) are parameters, collected in
    the record \<open>env\<close>; each may raise.
\<close>

subsection \<open>Strings\<close>

type_synonym bytes = string

definition NL :: char where
  "NL = CHR 0x0A"

definition SEP :: char where
  "SEP = CHR ''/''"

definition e_acute :: string where
  \<comment> \<open>U+00E9 in UTF-8\<close>
  "e_acute = [CHR 0xC3, CHR 0xA9]"

text \<open>\<^verbatim>\<open>posixpath.join(a, b)\<close>.\<close>

definition os_path_join :: "string \<Rightarrow> string \<Rightarrow> string" where
  "os_path_join a b =
     (if b \<noteq> [] \<and> hd b = SEP then b
      else if a = [] \<or> last a = SEP then a @ b
      else a @ [SEP] @ b)"

text \<open>\<^verbatim>\<open>posixpath.basename(p)\<close>: \<^verbatim>\<open>p[p.rfind('/') + 1:]\<close>.\<close>

definition os_path_basename :: "string \<Rightarrow> string" where
  "os_path_basename p = rev (takeWhile (\<lambda>c. c \<noteq> SEP) (rev p))"

text \<open>\<^verbatim>\<open>str.rfind(c)\<close> for a single character: the last index of \<open>c\<close>, or \<open>-1\<close>.\<close>

fun rfind :: "string \<Rightarrow> char \<Rightarrow> int" where
  "rfind [] c = -1"
| "rfind (x # xs) c =
     (let r = rfind xs c in
      if r \<ge> 0 then r + 1 else if x = c then 0 else -1)"

text \<open>
  \<^verbatim>\<open>genericpath._splitext(p, '/', None, '.')\<close>: the extension starts at the last
  dot, if that dot comes after the last separator and some character between the two is
  not a dot (the \<^verbatim>\<open>while\<close> loop that skips leading dots).
\<close>

definition os_path_splitext :: "string \<Rightarrow> string \<times> string" where
  "os_path_splitext p =
     (let sepIndex = rfind p SEP; dotIndex = rfind p (CHR ''.'') in
      if dotIndex > sepIndex \<and>
         list_ex (\<lambda>c. c \<noteq> CHR ''.'')
           (take (nat (dotIndex - (sepIndex + 1))) (drop (nat (sepIndex + 1)) p))
      then (take (nat dotIndex) p, drop (nat dotIndex) p)
      else (p, []))"

definition ascii_lower :: "char \<Rightarrow> char" where
  "ascii_lower c =
     (let n = (of_char c :: nat) in if 65 \<le> n \<and> n \<le> 90 then char_of (n + 32) else c)"

definition lower :: "string \<Rightarrow> string" where
  "lower s = map ascii_lower s"

text \<open>
  The characters for which \<^verbatim>\<open>str.isspace\<close> holds, each in UTF-8: U+0009 to U+000D,
  U+001C to U+0020, U+0085, U+00A0, U+1680, U+2000 to U+200A, U+2028, U+2029, U+202F,
  U+205F and U+3000.
\<close>

definition whitespace :: "string list" where
  "whitespace =
     map (\<lambda>c. [c])
       [CHR 0x09, CHR 0x0A, CHR 0x0B, CHR 0x0C, CHR 0x0D,
        CHR 0x1C, CHR 0x1D, CHR 0x1E, CHR 0x1F, CHR 0x20] @
     [[CHR 0xC2, CHR 0x85], [CHR 0xC2, CHR 0xA0], [CHR 0xE1, CHR 0x9A, CHR 0x80]] @
     map (\<lambda>c. [CHR 0xE2, CHR 0x80, c])
       [CHR 0x80, CHR 0x81, CHR 0x82, CHR 0x83, CHR 0x84, CHR 0x85, CHR 0x86, CHR 0x87,
        CHR 0x88, CHR 0x89, CHR 0x8A, CHR 0xA8, CHR 0xA9, CHR 0xAF] @
     [[CHR 0xE2, CHR 0x81, CHR 0x9F], [CHR 0xE3, CHR 0x80, CHR 0x80]]"

definition startswith :: "string \<Rightarrow> string \<Rightarrow> bool" where
  "startswith s w \<longleftrightarrow> take (length w) s = w"

definition endswith :: "string \<Rightarrow> string \<Rightarrow> bool" where
  "endswith s w \<longleftrightarrow> length w \<le> length s \<and> drop (length s - length w) s = w"

text \<open>
  \<^verbatim>\<open>str.lstrip()\<close>, \<^verbatim>\<open>str.rstrip()\<close> and \<^verbatim>\<open>str.strip()\<close>: whitespace
  characters are removed from the front, from the back, and from both ends, as long as
  there is one. No encoding in \<open>whitespace\<close> is the beginning of another and none ends
  inside a character, so on the UTF-8 of a \<^verbatim>\<open>str\<close> this removes whole characters.
\<close>

function lstrip :: "string \<Rightarrow> string" where
  "lstrip s =
     (case find (startswith s) whitespace of
        None \<Rightarrow> s
      | Some w \<Rightarrow> lstrip (drop (length w) s))"
  by pat_completeness auto
termination
proof (relation "measure length")
  show "wf (measure length)" by simp
next
  fix s w
  assume "find (startswith s) whitespace = Some w"
  then have "w \<in> set whitespace" and "startswith s w"
    by (auto simp: find_Some_iff)
  then have "0 < length w" and "length (take (length w) s) = length w"
    by (auto simp: whitespace_def startswith_def)
  then have "0 < length w" and "length w \<le> length s"
    by (simp_all add: min_def split: if_splits)
  then have "length s - length w < length s"
    by linarith
  then show "(drop (length w) s, s) \<in> measure length"
    by simp
qed

function rstrip :: "string \<Rightarrow> string" where
  "rstrip s =
     (case find (endswith s) whitespace of
        None \<Rightarrow> s
      | Some w \<Rightarrow> rstrip (take (length s - length w) s))"
  by pat_completeness auto
termination
proof (relation "measure length")
  show "wf (measure length)" by simp
next
  fix s w
  assume "find (endswith s) whitespace = Some w"
  then have "w \<in> set whitespace" and "endswith s w"
    by (auto simp: find_Some_iff)
  then have "0 < length w" and "length w \<le> length s"
    by (auto simp: whitespace_def endswith_def)
  then have "length s - length w < length s"
    by linarith
  then show "(take (length s - length w) s, s) \<in> measure length"
    by simp
qed

declare lstrip.simps [simp del] rstrip.simps [simp del]

definition strip :: "string \<Rightarrow> string" where
  "strip s = rstrip (lstrip s)"


text \<open>\<^verbatim>\<open>s.replace(a, b)\<close> for single characters \<open>a\<close> and \<open>b\<close>.\<close>

definition replace :: "string \<Rightarrow> char \<Rightarrow> char \<Rightarrow> string" where
  "replace s a b = map (\<lambda>c. if c = a then b else c) s"

text \<open>\<^verbatim>\<open>sep.join(xs)\<close>.\<close>

fun join :: "string \<Rightarrow> string list \<Rightarrow> string" where
  "join sep [] = []"
| "join sep [x] = x"
| "join sep (x # y # ys) = x @ sep @ join sep (y # ys)"

text \<open>\<^verbatim>\<open>str(n)\<close> for a natural number, as an f-string prints \<^verbatim>\<open>len(files)\<close>.\<close>

definition digit :: "nat \<Rightarrow> char" where
  "digit d = char_of (48 + d)"

function str_nat :: "nat \<Rightarrow> string" where
  "str_nat n = (if n < 10 then [digit n] else str_nat (n div 10) @ [digit (n mod 10)])"
  by pat_completeness auto
termination
  by (relation "measure id") auto

declare str_nat.simps [simp del]

text \<open>How an f-string prints the result of \<^verbatim>\<open>dict.get\<close>.\<close>

fun str_opt :: "string option \<Rightarrow> string" where
  "str_opt None = ''None''"
| "str_opt (Some s) = s"

subsection \<open>Errors\<close>

datatype error =
    FileExistsError
  | FileNotFoundError
  | NotADirectoryError
  | IsADirectoryError
  | ValueError
  | External string

subsection \<open>The file system below SESSIONS_DIR\<close>

datatype node = File bytes | Dir "(string \<times> node) list"

type_synonym dir = "(string \<times> node) list"

text \<open>
  A name the kernel accepts as a single path component that is not a directory by itself:
  what \<^verbatim>\<open>uuid.uuid4()\<close> prints, and what an entry of a directory is called.
\<close>

definition path_component :: "string \<Rightarrow> bool" where
  "path_component s \<longleftrightarrow>
     s \<noteq> [] \<and> s \<noteq> ''.'' \<and> s \<noteq> ''..'' \<and> SEP \<notin> set s \<and> CHR 0x00 \<notin> set s"

definition session_token :: "string \<Rightarrow> bool" where
  "session_token user_id \<longleftrightarrow> path_component user_id"

text \<open>
  \<^verbatim>\<open>os.makedirs(SESSIONS_DIR/name, exist_ok)\<close>: a new directory is enumerated
  last; an existing directory is accepted only with \<^verbatim>\<open>exist_ok\<close>; a file in the
  way is an error either way.
\<close>

definition os_makedirs :: "dir \<Rightarrow> string \<Rightarrow> bool \<Rightarrow> error + dir" where
  "os_makedirs fs name exist_ok =
     (case map_of fs name of
        None \<Rightarrow> Inr (fs @ [(name, Dir [])])
      | Some (Dir _) \<Rightarrow> if exist_ok then Inr fs else Inl FileExistsError
      | Some (File _) \<Rightarrow> Inl FileExistsError)"

text \<open>\<^verbatim>\<open>shutil.rmtree(SESSIONS_DIR/name)\<close>.\<close>

definition shutil_rmtree :: "dir \<Rightarrow> string \<Rightarrow> error + dir" where
  "shutil_rmtree fs name =
     (case map_of fs name of
        None \<Rightarrow> Inl FileNotFoundError
      | Some (File _) \<Rightarrow> Inl NotADirectoryError
      | Some (Dir _) \<Rightarrow> Inr (AList.delete name fs))"

text \<open>
  \<^verbatim>\<open>with open(SESSIONS_DIR/name/base, "wb") as f: f.write(data)\<close>: creates the
  file or truncates it, and fails on a directory (\<^verbatim>\<open>name/\<close>, \<^verbatim>\<open>name/.\<close> and
  \<^verbatim>\<open>name/..\<close> are directories).
\<close>

definition open_wb_write :: "dir \<Rightarrow> string \<Rightarrow> string \<Rightarrow> bytes \<Rightarrow> error + dir" where
  "open_wb_write fs name base data =
     (if CHR 0x00 \<in> set base then Inl ValueError
      else case map_of fs name of
        None \<Rightarrow> Inl FileNotFoundError
      | Some (File _) \<Rightarrow> Inl NotADirectoryError
      | Some (Dir entries) \<Rightarrow>
          if base = [] \<or> base = ''.'' \<or> base = ''..'' then Inl IsADirectoryError
          else (case map_of entries base of
                  Some (Dir _) \<Rightarrow> Inl IsADirectoryError
                | _ \<Rightarrow> Inr (AList.update name
                            (Dir (AList.update base (File data) entries)) fs)))"

text \<open>
  \<^verbatim>\<open>os.walk(root)\<close> as \<^verbatim>\<open>run_search\<close> consumes it: for every directory, top
  down, the files directly in it, each as (root, file, content), then the same for each
  subdirectory. \<^verbatim>\<open>os.walk\<close> yields nothing for a path that is not a directory.
\<close>

fun nondirs :: "string \<Rightarrow> dir \<Rightarrow> (string \<times> string \<times> bytes) list" where
  "nondirs root [] = []"
| "nondirs root ((file, File data) # entries) = (root, file, data) # nondirs root entries"
| "nondirs root ((sub, Dir _) # entries) = nondirs root entries"

fun os_walk :: "string \<Rightarrow> node \<Rightarrow> (string \<times> string \<times> bytes) list" where
  "os_walk root (File data) = []"
| "os_walk root (Dir entries) =
     nondirs root entries @
     concat (map (\<lambda>(sub, n). os_walk (os_path_join root sub) n) entries)"

fun os_walk_opt :: "string \<Rightarrow> node option \<Rightarrow> (string \<times> string \<times> bytes) list" where
  "os_walk_opt root None = []"
| "os_walk_opt root (Some n) = os_walk root n"

subsection \<open>Documents, answers and the Haystack collaborators\<close>

type_synonym meta = "(string \<times> string) list"

record document =
  doc_content :: string
  doc_meta :: meta

record answer =
  ans_context :: string
  ans_meta :: meta

datatype converter = PDFToTextConverter | TextConverter | DocxToTextConverter

record params =
  retriever_top_k :: nat
  reader_top_k :: nat

text \<open>
  The objects that \<^verbatim>\<open>app.py\<close> imports and only calls:
  \<^item> \<open>gettempdir\<close> is \<^verbatim>\<open>tempfile.gettempdir()\<close>;
  \<^item> \<open>convert c file_path data meta\<close> is \<^verbatim>\<open>converters[ext].convert(file_path, meta)\<close>,
    where \<open>data\<close> is what the file at \<open>file_path\<close> holds;
  \<^item> \<open>process docs\<close> is \<^verbatim>\<open>preprocessor.process(docs)\<close>;
  \<^item> \<open>pipeline_run store query params\<close> is \<^verbatim>\<open>pipeline.run(query, params)["answers"]\<close>
    when the retriever's document store holds \<open>store\<close>.
\<close>

record env =
  gettempdir :: string
  convert :: "converter \<Rightarrow> string \<Rightarrow> bytes \<Rightarrow> meta \<Rightarrow> error + document"
  process :: "document list \<Rightarrow> error + document list"
  pipeline_run :: "document list \<Rightarrow> string \<Rightarrow> params \<Rightarrow> error + answer list"

text \<open>
  Modelled from the spec: the two methods of Haystack's \<^verbatim>\<open>InMemoryDocumentStore\<close> that
  \<^verbatim>\<open>run_search\<close> calls are not part of the repository. The spec's contract for the
  Search Index (reset, then load the given passages) is split over the two calls the source
  makes: \<^verbatim>\<open>delete_documents()\<close> empties the store and \<^verbatim>\<open>write_documents(docs)\<close>
  adds \<open>docs\<close> to what the store holds.
\<close>

definition delete_documents :: "document list \<Rightarrow> document list" where
  "delete_documents store = []"

definition write_documents :: "document list \<Rightarrow> document list \<Rightarrow> document list" where
  "write_documents store docs = store @ docs"

definition converters :: "(string \<times> converter) list" where
  "converters =
     [(''.pdf'', PDFToTextConverter), (''.txt'', TextConverter), (''.docx'', DocxToTextConverter)]"

subsection \<open>The handlers\<close>

record uploaded_file =
  file_name :: string
  file_read :: bytes

record state =
  sessions_dir :: dir
  document_store :: "document list"

definition SESSIONS_DIR :: "env \<Rightarrow> string" where
  "SESSIONS_DIR env = os_path_join (gettempdir env) ''haystack_user_sessions''"

definition get_user_dir :: "env \<Rightarrow> dir \<Rightarrow> string \<Rightarrow> dir \<times> (error + string)" where
  "get_user_dir env fs user_id =
     (let user_dir = os_path_join (SESSIONS_DIR env) user_id in
      case os_makedirs fs user_id True of
        Inl e \<Rightarrow> (fs, Inl e)
      | Inr fs' \<Rightarrow> (fs', Inr user_dir))"

text \<open>
  The loop of \<^verbatim>\<open>add_files\<close>. \<^verbatim>\<open>dest_path\<close> is
  \<^verbatim>\<open>user_dir/basename(file.name)\<close>: the entry of that name in the session directory.
\<close>

fun write_uploads :: "dir \<Rightarrow> string \<Rightarrow> uploaded_file list \<Rightarrow> dir \<times> (error + unit)" where
  "write_uploads fs user_id [] = (fs, Inr ())"
| "write_uploads fs user_id (file # files) =
     (case open_wb_write fs user_id (os_path_basename (file_name file)) (file_read file) of
        Inl e \<Rightarrow> (fs, Inl e)
      | Inr fs' \<Rightarrow> write_uploads fs' user_id files)"

text \<open>The two status messages, as the source spells them.\<close>

definition files_added :: "nat \<Rightarrow> string" where
  "files_added n = str_nat n @ '' fichier(s) ajout'' @ e_acute @ ''(s).''"

definition files_deleted :: string where
  "files_deleted =
     ''Tous les fichiers ont '' @ e_acute @ ''t'' @ e_acute @ '' supprim'' @ e_acute @ ''s.''"

definition add_files ::
    "env \<Rightarrow> dir \<Rightarrow> string \<Rightarrow> uploaded_file list \<Rightarrow> dir \<times> (error + string)" where
  "add_files env fs user_id files =
     (case get_user_dir env fs user_id of
        (fs1, Inl e) \<Rightarrow> (fs1, Inl e)
      | (fs1, Inr user_dir) \<Rightarrow>
          (case write_uploads fs1 user_id files of
             (fs2, Inl e) \<Rightarrow> (fs2, Inl e)
           | (fs2, Inr _) \<Rightarrow>
               (fs2, Inr (files_added (length files)))))"

definition delete_files :: "env \<Rightarrow> dir \<Rightarrow> string \<Rightarrow> dir \<times> (error + string)" where
  "delete_files env fs user_id =
     (case get_user_dir env fs user_id of
        (fs1, Inl e) \<Rightarrow> (fs1, Inl e)
      | (fs1, Inr user_dir) \<Rightarrow>
          (case shutil_rmtree fs1 user_id of
             Inl e \<Rightarrow> (fs1, Inl e)
           | Inr fs2 \<Rightarrow>
               (case os_makedirs fs2 user_id False of
                  Inl e \<Rightarrow> (fs2, Inl e)
                | Inr fs3 \<Rightarrow>
                    (fs3, Inr files_deleted))))"

text \<open>The body of the inner loop of \<^verbatim>\<open>run_search\<close> (lines 63 to 69) for one file.\<close>

definition load_file :: "env \<Rightarrow> string \<times> string \<times> bytes \<Rightarrow> error + document list" where
  "load_file env entry =
     (case entry of (root, file, data) \<Rightarrow>
        (let filepath = os_path_join root file;
             ext = lower (snd (os_path_splitext file)) in
         case map_of converters ext of
           None \<Rightarrow> Inr []
         | Some converter \<Rightarrow>
             (case convert env converter filepath data [(''name'', file), (''path'', filepath)] of
                Inl e \<Rightarrow> Inl e
              | Inr doc \<Rightarrow> process env [doc])))"

text \<open>The two nested loops, over what \<^verbatim>\<open>os.walk\<close> yields, extending \<^verbatim>\<open>all_docs\<close>.\<close>

fun load_all ::
    "env \<Rightarrow> (string \<times> string \<times> bytes) list \<Rightarrow> document list \<Rightarrow> error + document list" where
  "load_all env [] all_docs = Inr all_docs"
| "load_all env (entry # entries) all_docs =
     (case load_file env entry of
        Inl e \<Rightarrow> Inl e
      | Inr docs \<Rightarrow> load_all env entries (all_docs @ docs))"

definition render_answer :: "answer \<Rightarrow> string" where
  "render_answer ans =
     (let context = replace (strip (ans_context ans)) NL (CHR '' '') in
      ''**Extrait :** '' @ context @ [NL, NL] @
      ''**Fichier :** '' @ str_opt (map_of (ans_meta ans) ''name'') @ [NL] @
      ''**Chemin :** '' @ str_opt (map_of (ans_meta ans) ''path''))"

definition search_params :: params where
  "search_params = \<lparr>retriever_top_k = 10, reader_top_k = 5\<rparr>"

definition divider :: string where
  "divider = [NL] @ ''---'' @ [NL]"

definition no_results :: string where
  "no_results = ''Aucun passage trouv'' @ e_acute @ ''.''"

definition run_search :: "env \<Rightarrow> state \<Rightarrow> string \<Rightarrow> string \<Rightarrow> state \<times> (error + string)" where
  "run_search env st user_id query =
     (case get_user_dir env (sessions_dir st) user_id of
        (fs1, Inl e) \<Rightarrow> (st\<lparr>sessions_dir := fs1\<rparr>, Inl e)
      | (fs1, Inr user_dir) \<Rightarrow>
          (case load_all env (os_walk_opt user_dir (map_of fs1 user_id)) [] of
             Inl e \<Rightarrow> (st\<lparr>sessions_dir := fs1\<rparr>, Inl e)
           | Inr all_docs \<Rightarrow>
               (let store = write_documents (delete_documents (document_store st)) all_docs;
                    st' = \<lparr>sessions_dir = fs1, document_store = store\<rparr> in
                case pipeline_run env store query search_params of
                  Inl e \<Rightarrow> (st', Inl e)
                | Inr answers \<Rightarrow>
                    (let results = map render_answer answers in
                     (st', Inr (if results \<noteq> [] then join divider results
                                else no_results))))))"

text \<open>
  \<^verbatim>\<open>run_search\<close> in two steps, for executions in which another handler runs in
  between: lines 58 to 72 (create the directory, load, empty and refill the store) and
  lines 74 to 83 (query the pipeline on what the store holds then, and render). The store
  is the one module-level object of line 18, and the source takes no lock.
\<close>

definition run_search_reload :: "env \<Rightarrow> state \<Rightarrow> string \<Rightarrow> state \<times> (error + unit)" where
  "run_search_reload env st user_id =
     (case get_user_dir env (sessions_dir st) user_id of
        (fs1, Inl e) \<Rightarrow> (st\<lparr>sessions_dir := fs1\<rparr>, Inl e)
      | (fs1, Inr user_dir) \<Rightarrow>
          (case load_all env (os_walk_opt user_dir (map_of fs1 user_id)) [] of
             Inl e \<Rightarrow> (st\<lparr>sessions_dir := fs1\<rparr>, Inl e)
           | Inr all_docs \<Rightarrow>
               (\<lparr>sessions_dir = fs1,
                 document_store =
                   write_documents (delete_documents (document_store st)) all_docs\<rparr>,
                Inr ())))"

definition run_search_query :: "env \<Rightarrow> state \<Rightarrow> string \<Rightarrow> state \<times> (error + string)" where
  "run_search_query env st query =
     (case pipeline_run env (document_store st) query search_params of
        Inl e \<Rightarrow> (st, Inl e)
      | Inr answers \<Rightarrow>
          (let results = map render_answer answers in
           (st, Inr (if results \<noteq> [] then join divider results else no_results))))"

text \<open>
  Modelled from the spec: \<^verbatim>\<open>list_session_files\<close> is an operation of the spec's Session
  Store that the source has no function for. It ``recursively enumerates all regular files
  currently stored for the session'', which is the enumeration \<^verbatim>\<open>run_search\<close> makes
  with \<^verbatim>\<open>os.walk(user_dir)\<close>; each file is listed by its path
  \<^verbatim>\<open>os.path.join(root, file)\<close>.
\<close>

definition session_entries :: "env \<Rightarrow> dir \<Rightarrow> string \<Rightarrow> (string \<times> string \<times> bytes) list" where
  "session_entries env fs user_id =
     os_walk_opt (os_path_join (SESSIONS_DIR env) user_id) (map_of fs user_id)"

definition list_session_files :: "env \<Rightarrow> dir \<Rightarrow> string \<Rightarrow> string list" where
  "list_session_files env fs user_id =
     map (\<lambda>(root, file, data). os_path_join root file) (session_entries env fs user_id)"

text \<open>
  \<^verbatim>\<open>get_user_dir\<close> raises exactly when a regular file holds the session's name; no
  handler creates such a file.
\<close>

definition can_make_dir :: "dir \<Rightarrow> string \<Rightarrow> bool" where
  "can_make_dir fs name = (case map_of fs name of Some (File _) \<Rightarrow> False | _ \<Rightarrow> True)"

text \<open>
  The file names whose extension, as \<^verbatim>\<open>os.path.splitext\<close> cuts it and lowered, is
  one of the three the converters are registered for.
\<close>

definition accepted :: "string \<Rightarrow> bool" where
  "accepted file \<longleftrightarrow>
     lower (snd (os_path_splitext file)) \<in> set [''.pdf'', ''.txt'', ''.docx'']"

text \<open>
  What the claims about uploads speak of. \<open>writable\<close>: \<^verbatim>\<open>open(dest_path, "wb")\<close>
  does not raise for this base name. \<open>stored\<close>: the bytes of the regular file of that
  name directly in the session directory. \<open>put\<close>: the entries of a directory after one
  upload has been written into it. \<open>flat\<close>: a directory holding regular files only,
  which is all that \<^verbatim>\<open>add_files\<close> ever creates. \<open>decimal\<close>: the number a string of
  digits denotes.
\<close>

definition writable :: "dir \<Rightarrow> string \<Rightarrow> string \<Rightarrow> bool" where
  "writable fs user_id base \<longleftrightarrow>
     base \<noteq> [] \<and> base \<noteq> ''.'' \<and> base \<noteq> ''..'' \<and> CHR 0x00 \<notin> set base \<and>
     (case map_of fs user_id of
        Some (Dir entries) \<Rightarrow> (case map_of entries base of Some (Dir _) \<Rightarrow> False | _ \<Rightarrow> True)
      | _ \<Rightarrow> True)"

definition stored :: "dir \<Rightarrow> string \<Rightarrow> string \<Rightarrow> bytes option" where
  "stored fs user_id base =
     (case map_of fs user_id of
        Some (Dir entries) \<Rightarrow> (case map_of entries base of Some (File data) \<Rightarrow> Some data | _ \<Rightarrow> None)
      | _ \<Rightarrow> None)"

definition put :: "dir \<Rightarrow> uploaded_file \<Rightarrow> dir" where
  "put entries f = AList.update (os_path_basename (file_name f)) (File (file_read f)) entries"

definition flat :: "dir \<Rightarrow> bool" where
  "flat entries = list_all (\<lambda>(name, n). case n of File _ \<Rightarrow> True | Dir _ \<Rightarrow> False) entries"

definition session_flat :: "dir \<Rightarrow> string \<Rightarrow> bool" where
  "session_flat fs user_id =
     (case map_of fs user_id of
        None \<Rightarrow> True
      | Some (File _) \<Rightarrow> False
      | Some (Dir entries) \<Rightarrow> flat entries \<and> distinct (map fst entries))"

definition decimal :: "string \<Rightarrow> nat" where
  "decimal s = foldl (\<lambda>n c. 10 * n + (of_char c - 48)) 0 s"

subsection \<open>A small instance\<close>

text \<open>
  Collaborators that copy: the converter returns the file's bytes as text under the given
  metadata, the preprocessor returns its input, and the pipeline answers with the first
  \<open>reader_top_k\<close> documents of the store.
\<close>

definition example_env :: env where
  "example_env =
     \<lparr>gettempdir = ''/tmp'',
      convert = (\<lambda>c path data m. Inr \<lparr>doc_content = data, doc_meta = m\<rparr>),
      process = (\<lambda>docs. Inr docs),
      pipeline_run = (\<lambda>store query ps.
        Inr (map (\<lambda>d. \<lparr>ans_context = doc_content d, ans_meta = doc_meta d\<rparr>)
               (take (reader_top_k ps) store)))\<rparr>"

definition token_a :: string where
  "token_a = ''0b5f1c9e-7a42-4d3b-9e61-2f8a6c0d4e17''"

definition token_b :: string where
  "token_b = ''c41d7e02-95ab-4f6c-8b3a-6e1f0d2a7b58''"

definition example_fs :: dir where
  "example_fs = [(token_b, Dir [(''doc.txt'', File ''The quick brown fox'')])]"

definition example_state :: state where
  "example_state = \<lparr>sessions_dir = example_fs, document_store = []\<rparr>"

definition stale_state :: state where
  "stale_state = example_state\<lparr>document_store := [\<lparr>doc_content = ''stale'', doc_meta = []\<rparr>]\<rparr>"

definition example_uploads :: "uploaded_file list" where
  "example_uploads =
     [\<lparr>file_name = ''/tmp/gradio/1/notes.txt'', file_read = ''first''\<rparr>,
      \<lparr>file_name = ''/tmp/gradio/2/notes.md'', file_read = ''second''\<rparr>]"

definition example_doc :: document where
  "example_doc =
     \<lparr>doc_content = ''The quick brown fox'',
      doc_meta = [(''name'', ''doc.txt''),
                  (''path'', ''/tmp/haystack_user_sessions/c41d7e02-95ab-4f6c-8b3a-6e1f0d2a7b58/doc.txt'')]\<rparr>"

definition example_block :: string where
  "example_block =
     ''**Extrait :** The quick brown fox'' @ [NL, NL] @ ''**Fichier :** doc.txt'' @ [NL] @
     ''**Chemin :** /tmp/haystack_user_sessions/c41d7e02-95ab-4f6c-8b3a-6e1f0d2a7b58/doc.txt''"

definition first_upload :: uploaded_file where
  "first_upload = \<lparr>file_name = ''/tmp/gradio/1/doc.txt'', file_read = ''old''\<rparr>"

definition second_upload :: uploaded_file where
  "second_upload = \<lparr>file_name = ''/tmp/gradio/2/doc.txt'', file_read = ''new''\<rparr>"

definition spaced_state :: state where
  "spaced_state =
     \<lparr>sessions_dir =
        [(token_a, Dir [(''a.txt'', File ([CHR 0xC2, CHR 0xA0] @ '' The quick'' @ [NL] @ ''brown fox'' @
                                           [CHR 0xE2, CHR 0x80, CHR 0x83] @ [NL])),
                        (''b.txt'', File ''lazy dog'')])],
      document_store = []\<rparr>"

definition spaced_docs :: "document list" where
  "spaced_docs =
     [\<lparr>doc_content = [CHR 0xC2, CHR 0xA0] @ '' The quick'' @ [NL] @ ''brown fox'' @
                      [CHR 0xE2, CHR 0x80, CHR 0x83] @ [NL],
       doc_meta = [(''name'', ''a.txt''),
                   (''path'', ''/tmp/haystack_user_sessions/0b5f1c9e-7a42-4d3b-9e61-2f8a6c0d4e17/a.txt'')]\<rparr>,
      \<lparr>doc_content = ''lazy dog'',
       doc_meta = [(''name'', ''b.txt''),
                   (''path'', ''/tmp/haystack_user_sessions/0b5f1c9e-7a42-4d3b-9e61-2f8a6c0d4e17/b.txt'')]\<rparr>]"

definition spaced_answers :: "answer list" where
  "spaced_answers =
     map (\<lambda>d. \<lparr>ans_context = doc_content d, ans_meta = doc_meta d\<rparr>) spaced_docs"

definition spaced_out :: string where
  "spaced_out =
     ''**Extrait :** The quick brown fox'' @ [NL, NL] @ ''**Fichier :** a.txt'' @ [NL] @
     ''**Chemin :** /tmp/haystack_user_sessions/0b5f1c9e-7a42-4d3b-9e61-2f8a6c0d4e17/a.txt'' @
     [NL] @ ''---'' @ [NL] @
     ''**Extrait :** lazy dog'' @ [NL, NL] @ ''**Fichier :** b.txt'' @ [NL] @
     ''**Chemin :** /tmp/haystack_user_sessions/0b5f1c9e-7a42-4d3b-9e61-2f8a6c0d4e17/b.txt''"

text \<open>Two sessions with one file each, and a session holding the same text twice.\<close>

definition shared_state :: state where
  "shared_state =
     \<lparr>sessions_dir =
        [(token_a, Dir [(''secret.txt'', File ''The secret of a'')]),
         (token_b, Dir [(''doc.txt'', File ''The quick brown fox'')])],
      document_store = []\<rparr>"

definition leaked_block :: string where
  "leaked_block =
     ''**Extrait :** The secret of a'' @ [NL, NL] @ ''**Fichier :** secret.txt'' @ [NL] @
     ''**Chemin :** /tmp/haystack_user_sessions/0b5f1c9e-7a42-4d3b-9e61-2f8a6c0d4e17/secret.txt''"

definition notes_state :: state where
  "notes_state =
     \<lparr>sessions_dir =
        [(token_a, Dir [(''notes.md'', File ''same words''),
                        (''notes.TXT'', File ''same words'')])],
      document_store = []\<rparr>"

definition example_passages :: "string \<times> string \<times> bytes \<Rightarrow> document list" where
  "example_passages entry =
     (case entry of (root, fname, data) \<Rightarrow>
        [\<lparr>doc_content = data,
          doc_meta = [(''name'', fname), (''path'', os_path_join root fname)]\<rparr>])"

section \<open>Properties\<close>

subsection \<open>The session directory\<close>

lemma map_of_snoc:
  "map_of (fs @ [(n, v)]) t =
     (case map_of fs t of None \<Rightarrow> if t = n then Some v else None | Some x \<Rightarrow> Some x)"
  by (induction fs) auto

lemma get_user_dir_None:
  "map_of fs s = None \<Longrightarrow>
   get_user_dir env fs s = (fs @ [(s, Dir [])], Inr (os_path_join (SESSIONS_DIR env) s))"
  by (simp add: get_user_dir_def os_makedirs_def)

lemma get_user_dir_Dir:
  "map_of fs s = Some (Dir d) \<Longrightarrow>
   get_user_dir env fs s = (fs, Inr (os_path_join (SESSIONS_DIR env) s))"
  by (simp add: get_user_dir_def os_makedirs_def)

lemma get_user_dir_File:
  "map_of fs s = Some (File b) \<Longrightarrow> get_user_dir env fs s = (fs, Inl FileExistsError)"
  by (simp add: get_user_dir_def os_makedirs_def)

lemma map_of_get_user_dir:
  "map_of (fst (get_user_dir env fs s)) t =
     (if t = s \<and> map_of fs s = None then Some (Dir []) else map_of fs t)"
proof (cases "map_of fs s")
  case None
  then show ?thesis
    by (auto simp: get_user_dir_None map_add_def split: option.splits)
next
  case (Some n)
  then show ?thesis
    by (cases n) (simp_all add: get_user_dir_Dir get_user_dir_File)
qed

lemma snd_get_user_dir:
  "snd (get_user_dir env fs s) =
     (if can_make_dir fs s then Inr (os_path_join (SESSIONS_DIR env) s)
      else Inl FileExistsError)"
  by (simp add: get_user_dir_def os_makedirs_def can_make_dir_def
           split: option.splits node.splits)

text \<open>Creating the directory adds no file: the walk sees what it saw before.\<close>

lemma os_walk_opt_get_user_dir:
  "os_walk_opt root (map_of (fst (get_user_dir env fs s)) t) = os_walk_opt root (map_of fs t)"
  by (simp add: map_of_get_user_dir)

lemma session_entries_get_user_dir:
  "session_entries env (fst (get_user_dir env fs s)) t = session_entries env fs t"
  by (simp add: session_entries_def os_walk_opt_get_user_dir)

subsection \<open>What a search returns and leaves behind\<close>

lemma sessions_dir_run_search:
  "sessions_dir (fst (run_search env st s q)) = fst (get_user_dir env (sessions_dir st) s)"
  by (simp add: run_search_def Let_def split: prod.splits sum.splits)

lemma walk_after_get_user_dir:
  assumes "get_user_dir env fs s = (fs1, r)"
  shows "os_walk_opt root (map_of fs1 s) = os_walk_opt root (map_of fs s)"
  using os_walk_opt_get_user_dir [of root env fs s s] assms by simp

lemma snd_run_search:
  "snd (run_search env st s q) =
     (case snd (get_user_dir env (sessions_dir st) s) of
        Inl e \<Rightarrow> Inl e
      | Inr user_dir \<Rightarrow>
          (case load_all env (os_walk_opt user_dir (map_of (sessions_dir st) s)) [] of
             Inl e \<Rightarrow> Inl e
           | Inr all_docs \<Rightarrow>
               (case pipeline_run env all_docs q search_params of
                  Inl e \<Rightarrow> Inl e
                | Inr answers \<Rightarrow>
                    Inr (if answers \<noteq> [] then join divider (map render_answer answers)
                         else no_results))))"
proof -
  obtain fs1 r where g: "get_user_dir env (sessions_dir st) s = (fs1, r)"
    by (cases "get_user_dir env (sessions_dir st) s")
  show ?thesis
    by (simp add: run_search_def g walk_after_get_user_dir [OF g] Let_def
                  write_documents_def delete_documents_def
             split: sum.splits)
qed

lemma document_store_run_search:
  "document_store (fst (run_search env st s q)) =
     (case snd (get_user_dir env (sessions_dir st) s) of
        Inl e \<Rightarrow> document_store st
      | Inr user_dir \<Rightarrow>
          (case load_all env (os_walk_opt user_dir (map_of (sessions_dir st) s)) [] of
             Inl e \<Rightarrow> document_store st
           | Inr all_docs \<Rightarrow> all_docs))"
proof -
  obtain fs1 r where g: "get_user_dir env (sessions_dir st) s = (fs1, r)"
    by (cases "get_user_dir env (sessions_dir st) s")
  show ?thesis
    by (simp add: run_search_def g walk_after_get_user_dir [OF g] Let_def
                  write_documents_def delete_documents_def
             split: sum.splits)
qed

text \<open>The outcome of a search depends on the state only through the session's own entry.\<close>

lemma snd_run_search_cong:
  assumes "map_of (sessions_dir st) s = map_of (sessions_dir st') s"
  shows "snd (run_search env st s q) = snd (run_search env st' s q)"
  using assms by (simp add: snd_run_search snd_get_user_dir can_make_dir_def)

text \<open>The two steps, run one right after the other, are \<open>run_search\<close>.\<close>

lemma run_search_steps:
  "run_search env st s q =
     (case run_search_reload env st s of
        (st1, Inl e) \<Rightarrow> (st1, Inl e)
      | (st1, Inr u) \<Rightarrow> run_search_query env st1 q)"
  by (simp add: run_search_def run_search_reload_def run_search_query_def Let_def
           split: prod.splits sum.splits)

subsection \<open>Each handler touches one entry of SESSIONS_DIR\<close>

lemma map_of_open_wb_write:
  "open_wb_write fs s b data = Inr fs' \<Longrightarrow> t \<noteq> s \<Longrightarrow> map_of fs' t = map_of fs t"
  by (auto simp: open_wb_write_def update_conv' split: if_splits option.splits node.splits)

lemma map_of_write_uploads:
  "t \<noteq> s \<Longrightarrow> map_of (fst (write_uploads fs s files)) t = map_of fs t"
proof (induction files arbitrary: fs)
  case Nil
  then show ?case by simp
next
  case (Cons f files)
  then show ?case
    by (cases "open_wb_write fs s (os_path_basename (file_name f)) (file_read f)")
       (simp_all add: map_of_open_wb_write)
qed

lemma fst_add_files:
  "fst (add_files env fs s files) =
     (case snd (get_user_dir env fs s) of
        Inl e \<Rightarrow> fs
      | Inr user_dir \<Rightarrow> fst (write_uploads (fst (get_user_dir env fs s)) s files))"
  by (simp add: add_files_def get_user_dir_def split: prod.splits sum.splits)

lemma map_of_add_files:
  "t \<noteq> s \<Longrightarrow> map_of (fst (add_files env fs s files)) t = map_of fs t"
  by (simp add: fst_add_files map_of_write_uploads map_of_get_user_dir split: sum.splits)

lemma map_of_delete_files:
  "t \<noteq> s \<Longrightarrow> map_of (fst (delete_files env fs s)) t = map_of fs t"
  by (auto simp: delete_files_def get_user_dir_def os_makedirs_def shutil_rmtree_def
                 map_of_snoc delete_conv' map_add_def
           split: option.splits node.splits)

lemma map_of_run_search:
  "t \<noteq> s \<Longrightarrow>
   map_of (sessions_dir (fst (run_search env st s q))) t = map_of (sessions_dir st) t"
  by (simp add: sessions_dir_run_search map_of_get_user_dir)

subsection \<open>Clearing a session\<close>

lemma delete_snoc: "AList.delete s (fs @ [(s, v)]) = AList.delete s fs"
  by (simp add: AList.delete_eq)

lemma map_of_delete_same: "map_of (AList.delete s fs) s = None"
  by (simp add: delete_conv')

lemma rmtree_then_makedirs:
  "os_makedirs (AList.delete s fs) s False = Inr (AList.delete s fs @ [(s, Dir [])])"
  by (simp add: os_makedirs_def map_of_delete_same)

lemma delete_files_ok:
  assumes "can_make_dir fs s"
  shows "delete_files env fs s = (AList.delete s fs @ [(s, Dir [])], Inr files_deleted)"
proof (cases "map_of fs s")
  case None
  then have "shutil_rmtree (fs @ [(s, Dir [])]) s = Inr (AList.delete s fs)"
    by (simp add: shutil_rmtree_def map_add_def delete_snoc)
  with None show ?thesis
    by (simp add: delete_files_def get_user_dir_None rmtree_then_makedirs)
next
  case (Some n)
  with assms obtain d where "n = Dir d"
    by (cases n) (simp_all add: can_make_dir_def)
  with Some have "shutil_rmtree fs s = Inr (AList.delete s fs)"
    by (simp add: shutil_rmtree_def)
  with Some \<open>n = Dir d\<close> show ?thesis
    by (simp add: delete_files_def get_user_dir_Dir rmtree_then_makedirs)
qed

subsection \<open>Loading by extension\<close>

lemma list_session_files_Nil:
  "list_session_files env fs s = [] \<longleftrightarrow> session_entries env fs s = []"
  by (simp add: list_session_files_def)

lemma converters_accepted:
  "map_of converters ext \<noteq> None \<longleftrightarrow> ext \<in> set [''.pdf'', ''.txt'', ''.docx'']"
  by (simp add: converters_def)

lemma load_file_skipped:
  "\<not> accepted file \<Longrightarrow> load_file env (root, file, data) = Inr []"
  using converters_accepted [of "lower (snd (os_path_splitext file))"]
  by (simp add: load_file_def accepted_def Let_def del: set_simps split: option.splits)

lemma load_all_skip:
  "load_all env entries docs
     = load_all env (filter (\<lambda>(root, file, data). accepted file) entries) docs"
proof (induction entries arbitrary: docs)
  case Nil
  then show ?case by simp
next
  case (Cons entry entries)
  obtain root fname data where e: "entry = (root, fname, data)"
    by (cases entry)
  show ?case
  proof (cases "accepted fname")
    case True
    with Cons e show ?thesis
      by (simp split: sum.splits)
  next
    case False
    with Cons e show ?thesis
      by (simp add: load_file_skipped)
  qed
qed

text \<open>When the accepted files load, the result is their passages, in walk order.\<close>

lemma load_all_accepted:
  assumes "\<forall>e \<in> set entries.
             (case e of (root, fname, data) \<Rightarrow> accepted fname) \<longrightarrow>
             load_file env e = Inr (passages e)"
  shows "load_all env entries docs =
           Inr (docs @ concat (map passages
                  (filter (\<lambda>(root, fname, data). accepted fname) entries)))"
  using assms
proof (induction entries arbitrary: docs)
  case Nil
  then show ?case by simp
next
  case (Cons entry entries)
  obtain root fname data where e: "entry = (root, fname, data)"
    by (cases entry)
  from Cons.prems have rest: "\<forall>e \<in> set entries.
             (case e of (root, fname, data) \<Rightarrow> accepted fname) \<longrightarrow>
             load_file env e = Inr (passages e)"
    by simp
  show ?case
  proof (cases "accepted fname")
    case True
    with Cons.prems e have "load_file env entry = Inr (passages entry)"
      by simp
    with True e Cons.IH [OF rest] show ?thesis
      by simp
  next
    case False
    with e have "load_file env entry = Inr []"
      by (simp add: load_file_skipped)
    with False e Cons.IH [OF rest] show ?thesis
      by simp
  qed
qed

subsection \<open>Writing uploads\<close>

lemma of_char_digit: "d < 10 \<Longrightarrow> (of_char (digit d) :: nat) = 48 + d"
  by (simp add: digit_def)

lemma decimal_snoc: "decimal (s @ [c]) = 10 * decimal s + (of_char c - 48)"
  by (simp add: decimal_def)

lemma decimal_str_nat: "decimal (str_nat n) = n"
proof (induction n rule: str_nat.induct)
  case (1 n)
  show ?case
  proof (cases "n < 10")
    case True
    then have "str_nat n = [digit n]"
      by (subst str_nat.simps) simp
    with True show ?thesis
      by (simp add: decimal_def of_char_digit)
  next
    case False
    with 1 have ih: "decimal (str_nat (n div 10)) = n div 10"
      by simp
    from False have "str_nat n = str_nat (n div 10) @ [digit (n mod 10)]"
      by (subst str_nat.simps) simp
    with ih show ?thesis
      by (simp add: decimal_snoc of_char_digit)
  qed
qed

lemma open_wb_write_ok:
  assumes "map_of fs s = Some (Dir d)" and "writable fs s (os_path_basename (file_name f))"
  shows "open_wb_write fs s (os_path_basename (file_name f)) (file_read f)
           = Inr (AList.update s (Dir (put d f)) fs)"
  using assms
  by (simp add: open_wb_write_def writable_def put_def split: option.splits node.splits)

lemma writable_after_put:
  assumes "map_of fs s = Some (Dir d)" and "writable fs s b"
  shows "writable (AList.update s (Dir (put d f)) fs) s b"
  using assms
  by (simp add: writable_def put_def update_conv' split: option.splits node.splits)

lemma write_uploads_ok:
  assumes "map_of fs s = Some (Dir d)"
    and "\<forall>f \<in> set uploads. writable fs s (os_path_basename (file_name f))"
  shows "write_uploads fs s uploads = (AList.update s (Dir (foldl put d uploads)) fs, Inr ())"
  using assms
proof (induction uploads arbitrary: fs d)
  case Nil
  then show ?case
    by (simp add: update_triv)
next
  case (Cons f uploads)
  let ?fs1 = "AList.update s (Dir (put d f)) fs"
  from Cons.prems have o: "open_wb_write fs s (os_path_basename (file_name f)) (file_read f)
           = Inr ?fs1"
    by (simp add: open_wb_write_ok)
  have m: "map_of ?fs1 s = Some (Dir (put d f))"
    by (simp add: update_conv')
  from Cons.prems have w: "\<forall>g \<in> set uploads. writable ?fs1 s (os_path_basename (file_name g))"
    by (simp add: writable_after_put)
  from Cons.IH [OF m w] o show ?case
    by simp
qed

lemma file_stays_file:
  "map_of d b = Some (File x) \<Longrightarrow> \<exists>y. map_of (foldl put d uploads) b = Some (File y)"
proof (induction uploads arbitrary: d x)
  case Nil
  then show ?case by simp
next
  case (Cons f uploads)
  from Cons.prems have "\<exists>z. map_of (put d f) b = Some (File z)"
    by (simp add: put_def update_conv')
  then obtain z where "map_of (put d f) b = Some (File z)" ..
  from Cons.IH [OF this] show ?case by simp
qed

lemma upload_is_file:
  "f \<in> set uploads \<Longrightarrow>
   \<exists>y. map_of (foldl put d uploads) (os_path_basename (file_name f)) = Some (File y)"
proof (induction uploads arbitrary: d)
  case Nil
  then show ?case by simp
next
  case (Cons g uploads)
  show ?case
  proof (cases "f \<in> set uploads")
    case True
    with Cons.IH show ?thesis by simp
  next
    case False
    with Cons.prems have "f = g" by simp
    then have "map_of (put d g) (os_path_basename (file_name f)) = Some (File (file_read g))"
      by (simp add: put_def update_conv')
    then show ?thesis
      by (simp add: file_stays_file)
  qed
qed

lemma writable_get_user_dir:
  "writable (fst (get_user_dir env fs s)) s b \<longleftrightarrow> writable fs s b"
  by (simp add: writable_def map_of_get_user_dir split: option.splits)

lemma add_files_ok:
  assumes "can_make_dir fs s"
    and "\<forall>f \<in> set uploads. writable fs s (os_path_basename (file_name f))"
  shows "\<exists>d. map_of (fst (get_user_dir env fs s)) s = Some (Dir d)
           \<and> add_files env fs s uploads
               = (AList.update s (Dir (foldl put d uploads)) (fst (get_user_dir env fs s)),
                  Inr (files_added (length uploads)))"
proof -
  let ?fs1 = "fst (get_user_dir env fs s)"
  from assms(1) obtain d where d: "map_of ?fs1 s = Some (Dir d)"
    by (cases "map_of fs s"; cases "the (map_of fs s)")
       (auto simp: map_of_get_user_dir can_make_dir_def)
  from assms(2) have w: "\<forall>f \<in> set uploads. writable ?fs1 s (os_path_basename (file_name f))"
    by (simp add: writable_get_user_dir)
  from assms(1) have g: "get_user_dir env fs s = (?fs1, Inr (os_path_join (SESSIONS_DIR env) s))"
    using snd_get_user_dir [of env fs s] by (simp add: prod_eq_iff)
  have "add_files env fs s uploads
          = (AList.update s (Dir (foldl put d uploads)) ?fs1, Inr (files_added (length uploads)))"
    by (subst add_files_def, subst g) (simp add: write_uploads_ok [OF d w])
  with d show ?thesis by blast
qed

lemma flat_walk: "flat d \<Longrightarrow> os_walk root (Dir d) = nondirs root d"
proof -
  assume "flat d"
  then have "concat (map (\<lambda>(sub, n). os_walk (os_path_join root sub) n) d) = []"
    by (induction d) (auto simp: flat_def split: node.splits)
  then show ?thesis by simp
qed

lemma flat_put: "flat d \<Longrightarrow> flat (put d f)"
  unfolding put_def
  by (induction d) (auto simp: flat_def)

lemma distinct_put: "distinct (map fst d) \<Longrightarrow> distinct (map fst (put d f))"
  by (simp add: put_def distinct_update)

lemma put_put:
  "os_path_basename (file_name f1) = os_path_basename (file_name f2) \<Longrightarrow>
   put (put d f1) f2 = put d f2"
  by (simp add: put_def)

lemma nondirs_update_unique:
  "distinct (map fst d) \<Longrightarrow>
   filter (\<lambda>(root, fname, data). fname = b) (nondirs root (AList.update b (File x) d))
     = [(root, b, x)]"
proof (induction d)
  case Nil
  then show ?case by simp
next
  case (Cons e d)
  obtain k n where e: "e = (k, n)" by (cases e)
  show ?case
  proof (cases "k = b")
    case True
    with Cons.prems e have "b \<notin> fst ` set d" by auto
    then have "filter (\<lambda>(root, fname, data). fname = b) (nondirs root d) = []"
      by (induction root d rule: nondirs.induct) auto
    with True e show ?thesis by simp
  next
    case False
    with Cons e show ?thesis
      by (cases n) simp_all
  qed
qed

subsection \<open>Rendering\<close>

lemma lstrip_None: "find (startswith s) whitespace = None \<Longrightarrow> lstrip s = s"
  by (subst lstrip.simps) simp

lemma lstrip_Some: "find (startswith s) whitespace = Some w \<Longrightarrow> lstrip s = lstrip (drop (length w) s)"
  by (subst lstrip.simps) simp

lemma rstrip_None: "find (endswith s) whitespace = None \<Longrightarrow> rstrip s = s"
  by (subst rstrip.simps) simp

lemma rstrip_Some:
  "find (endswith s) whitespace = Some w \<Longrightarrow> rstrip s = rstrip (take (length s - length w) s)"
  by (subst rstrip.simps) simp

lemma lstrip_split: "\<exists>ws. set ws \<subseteq> set whitespace \<and> s = concat ws @ lstrip s"
proof (induction s rule: lstrip.induct)
  case (1 s)
  show ?case
  proof (cases "find (startswith s) whitespace")
    case None
    then have "s = concat [] @ lstrip s" by (simp add: lstrip_None)
    then show ?thesis by (metis empty_set empty_subsetI)
  next
    case (Some w)
    then have w: "w \<in> set whitespace" and sw: "startswith s w"
      by (auto simp: find_Some_iff)
    from 1 [OF Some] obtain ws where ws: "set ws \<subseteq> set whitespace"
      and d: "drop (length w) s = concat ws @ lstrip (drop (length w) s)"
      by blast
    from sw have "s = w @ drop (length w) s"
      by (metis append_take_drop_id startswith_def)
    with d have "s = concat (w # ws) @ lstrip s"
      by (simp add: lstrip_Some [OF Some])
    moreover from w ws have "set (w # ws) \<subseteq> set whitespace" by simp
    ultimately show ?thesis by blast
  qed
qed

lemma rstrip_split: "\<exists>ws. set ws \<subseteq> set whitespace \<and> s = rstrip s @ concat ws"
proof (induction s rule: rstrip.induct)
  case (1 s)
  show ?case
  proof (cases "find (endswith s) whitespace")
    case None
    then have "s = rstrip s @ concat []" by (simp add: rstrip_None)
    then show ?thesis by (metis empty_set empty_subsetI)
  next
    case (Some w)
    then have w: "w \<in> set whitespace" and sw: "endswith s w"
      by (auto simp: find_Some_iff)
    let ?t = "take (length s - length w) s"
    from 1 [OF Some] obtain ws where ws: "set ws \<subseteq> set whitespace"
      and d: "?t = rstrip ?t @ concat ws"
      by blast
    from sw have "s = ?t @ w"
      by (metis append_take_drop_id endswith_def)
    with d have "s = rstrip s @ concat (ws @ [w])"
      by (simp add: rstrip_Some [OF Some]) (metis append_assoc)
    moreover from w ws have "set (ws @ [w]) \<subseteq> set whitespace" by simp
    ultimately show ?thesis by blast
  qed
qed

lemma lstrip_no_lead: "find (startswith (lstrip s)) whitespace = None"
proof (induction s rule: lstrip.induct)
  case (1 s)
  show ?case
  proof (cases "find (startswith s) whitespace")
    case None
    then show ?thesis by (simp add: lstrip_None)
  next
    case (Some w)
    from 1 [OF Some] show ?thesis by (simp add: lstrip_Some [OF Some])
  qed
qed

lemma rstrip_no_trail: "find (endswith (rstrip s)) whitespace = None"
proof (induction s rule: rstrip.induct)
  case (1 s)
  show ?case
  proof (cases "find (endswith s) whitespace")
    case None
    then show ?thesis by (simp add: rstrip_None)
  next
    case (Some w)
    from 1 [OF Some] show ?thesis by (simp add: rstrip_Some [OF Some])
  qed
qed

lemma startswith_take: "startswith (take n s) w \<Longrightarrow> startswith s w"
  unfolding startswith_def
  by (metis length_take min.cobounded2 take_all_iff take_take min.absorb_iff1 min.commute)

lemma rstrip_keeps_no_lead:
  "find (startswith s) whitespace = None \<Longrightarrow> find (startswith (rstrip s)) whitespace = None"
proof (induction s rule: rstrip.induct)
  case (1 s)
  show ?case
  proof (cases "find (endswith s) whitespace")
    case None
    with 1 show ?thesis by (simp add: rstrip_None)
  next
    case (Some w)
    from "1.prems" have "find (startswith (take (length s - length w) s)) whitespace = None"
      by (auto simp: find_None_iff dest: startswith_take)
    from "1.IH" [OF Some this] show ?thesis by (simp add: rstrip_Some [OF Some])
  qed
qed

lemma strip_spec:
  "\<exists>pre post. set pre \<subseteq> set whitespace \<and> set post \<subseteq> set whitespace
      \<and> s = concat pre @ strip s @ concat post
      \<and> (\<forall>w \<in> set whitespace. \<not> startswith (strip s) w \<and> \<not> endswith (strip s) w)"
proof -
  obtain pre where pre: "set pre \<subseteq> set whitespace" "s = concat pre @ lstrip s"
    using lstrip_split by blast
  obtain post where post: "set post \<subseteq> set whitespace" "lstrip s = strip s @ concat post"
    using rstrip_split [of "lstrip s"] by (auto simp: strip_def)
  have "find (startswith (strip s)) whitespace = None"
    by (simp add: strip_def rstrip_keeps_no_lead lstrip_no_lead)
  moreover have "find (endswith (strip s)) whitespace = None"
    by (simp add: strip_def rstrip_no_trail)
  ultimately have "\<forall>w \<in> set whitespace. \<not> startswith (strip s) w \<and> \<not> endswith (strip s) w"
    by (simp add: find_None_iff)
  with pre post show ?thesis by (metis append_assoc)
qed


lemma no_newline_after_replace: "NL \<notin> set (replace s NL (CHR '' ''))"
  by (auto simp: replace_def NL_def)

lemma join_concat: "join sep (x # xs) = x @ concat (map (\<lambda>y. sep @ y) xs)"
  by (induction xs arbitrary: x) simp_all

subsection \<open>The instance\<close>

lemma session_token_a: "session_token token_a"
  by (simp add: session_token_def path_component_def token_a_def SEP_def)

lemma session_token_b: "session_token token_b"
  by (simp add: session_token_def path_component_def token_b_def SEP_def)

lemma token_a_neq_b: "token_a \<noteq> token_b"
  by (simp add: token_a_def token_b_def)

lemma example_pipeline_bounded:
  "\<forall>store query ps answers.
     pipeline_run example_env store query ps = Inr answers \<longrightarrow> length answers \<le> reader_top_k ps"
  by (auto simp: example_env_def)

lemma example_search:
  "run_search example_env example_state token_b ''fox''
     = (\<lparr>sessions_dir = example_fs, document_store = [example_doc]\<rparr>, Inr example_block)"
  by code_simp

lemma spaced_search:
  "run_search example_env spaced_state token_a ''fox''
     = (\<lparr>sessions_dir = sessions_dir spaced_state, document_store = spaced_docs\<rparr>,
        Inr spaced_out)"
  by code_simp

lemma spaced_pipeline:
  "pipeline_run example_env spaced_docs ''fox'' search_params = Inr spaced_answers"
  by (simp add: example_env_def spaced_answers_def spaced_docs_def search_params_def)

lemma example_load_file:
  assumes "accepted fname"
  shows "load_file example_env (root, fname, data) = Inr (example_passages (root, fname, data))"
proof -
  from assms obtain converter
    where "map_of converters (lower (snd (os_path_splitext fname))) = Some converter"
    using converters_accepted [of "lower (snd (os_path_splitext fname))"]
    by (auto simp: accepted_def simp del: set_simps)
  then show ?thesis
    by (simp add: load_file_def Let_def example_env_def example_passages_def)
qed

section \<open>The claims\<close>

text \<open>
  C1 (session isolation). As stated, for all executions, the claim fails: the document store
  is one object shared by all sessions and \<open>run_search\<close> holds no lock, so when a search
  of \<open>s1\<close> reloads the store between the reload and the query of a search of \<open>s2\<close>,
  the search of \<open>s2\<close> renders the file of \<open>s1\<close>.
\<close>

theorem session_isolation_counterexample:
  "token_a \<noteq> token_b \<and>
   snd (run_search_query example_env
          (fst (run_search_reload example_env
                  (fst (run_search_reload example_env shared_state token_b)) token_a))
          ''secret'')
     = Inr leaked_block \<and>
   snd (run_search example_env shared_state token_b ''secret'') = Inr example_block"
proof -
  have "snd (run_search_query example_env
          (fst (run_search_reload example_env
                  (fst (run_search_reload example_env shared_state token_b)) token_a))
          ''secret'')
     = Inr leaked_block"
    by code_simp
  moreover have "snd (run_search example_env shared_state token_b ''secret'') = Inr example_block"
    by code_simp
  ultimately show ?thesis
    using token_a_neq_b by simp
qed

text \<open>
  C1, amended. When the handlers run one after the other, which makes the two steps of a
  search adjacent, then for session tokens \<open>s1 \<noteq> s2\<close> what \<open>s1\<close> does never shows in
  what a search of \<open>s2\<close> returns: the outcome of \<open>run_search\<close> for \<open>s2\<close> (the rendered
  answers with their file names and paths, or the exception) is the same whether or not
  \<open>s1\<close> has added any files before, has deleted its files before, or has itself run a
  search before, which leaves \<open>s1\<close>'s passages in the shared document store. This holds
  for all collaborators, so no answer of \<open>s2\<close> can stem from a file of \<open>s1\<close>.
\<close>

theorem session_isolation:
  assumes "session_token s1" and "session_token s2" and "s1 \<noteq> s2"
  shows "snd (run_search env
                \<lparr>sessions_dir = fst (add_files env (sessions_dir st) s1 uploads),
                 document_store = store'\<rparr> s2 q)
           = snd (run_search env st s2 q)
       \<and> snd (run_search env
                \<lparr>sessions_dir = fst (delete_files env (sessions_dir st) s1),
                 document_store = store'\<rparr> s2 q)
           = snd (run_search env st s2 q)
       \<and> snd (run_search env (fst (run_search env st s1 q1)) s2 q)
           = snd (run_search env st s2 q)"
proof (intro conjI)
  from assms(3)
  show "snd (run_search env
               \<lparr>sessions_dir = fst (add_files env (sessions_dir st) s1 uploads),
                document_store = store'\<rparr> s2 q)
          = snd (run_search env st s2 q)"
    by (intro snd_run_search_cong) (simp add: map_of_add_files)
  from assms(3)
  show "snd (run_search env
               \<lparr>sessions_dir = fst (delete_files env (sessions_dir st) s1),
                document_store = store'\<rparr> s2 q)
          = snd (run_search env st s2 q)"
    by (intro snd_run_search_cong) (simp add: map_of_delete_files)
  from assms(3)
  show "snd (run_search env (fst (run_search env st s1 q1)) s2 q)
          = snd (run_search env st s2 q)"
    by (intro snd_run_search_cong) (simp add: map_of_run_search)
qed

theorem session_isolation_witness:
  "session_token token_a \<and> session_token token_b \<and> token_a \<noteq> token_b \<and>
   snd (run_search example_env
          \<lparr>sessions_dir = fst (add_files example_env example_fs token_a example_uploads),
           document_store = []\<rparr> token_b ''fox'')
     = snd (run_search example_env example_state token_b ''fox'')"
  using session_isolation [OF session_token_a session_token_b token_a_neq_b,
          of example_env example_state example_uploads "[]" "''fox''" "''fox''"]
        session_token_a session_token_b token_a_neq_b
  by (simp add: example_state_def)

text \<open>
  C10 (frame). A search changes no stored file: for every entry \<open>t\<close> of
  \<^verbatim>\<open>SESSIONS_DIR\<close>, the files enumerated under \<open>t\<close>, with their names, paths and
  contents, are the same before and after \<open>run_search\<close>, whatever its outcome. The one
  change \<open>run_search\<close> can make to the directory tree is the creation, by
  \<open>get_user_dir\<close>, of the session's own directory, empty, when it did not exist.
\<close>

theorem search_preserves_files:
  assumes "session_token user_id"
  shows "session_entries env (sessions_dir (fst (run_search env st user_id query))) t
           = session_entries env (sessions_dir st) t
       \<and> (sessions_dir (fst (run_search env st user_id query)) = sessions_dir st
          \<or> sessions_dir (fst (run_search env st user_id query))
              = sessions_dir st @ [(user_id, Dir [])])"
proof
  show "session_entries env (sessions_dir (fst (run_search env st user_id query))) t
          = session_entries env (sessions_dir st) t"
    by (simp add: sessions_dir_run_search session_entries_get_user_dir)
  show "sessions_dir (fst (run_search env st user_id query)) = sessions_dir st
          \<or> sessions_dir (fst (run_search env st user_id query))
              = sessions_dir st @ [(user_id, Dir [])]"
    by (simp add: sessions_dir_run_search get_user_dir_def os_makedirs_def
             split: option.splits node.splits)
qed

theorem search_preserves_files_witness:
  "session_token token_a \<and>
   session_entries example_env
       (sessions_dir (fst (run_search example_env example_state token_a ''fox''))) token_b
     = [(''/tmp/haystack_user_sessions/c41d7e02-95ab-4f6c-8b3a-6e1f0d2a7b58'',
         ''doc.txt'', ''The quick brown fox'')]"
  using search_preserves_files [OF session_token_a, of example_env example_state "''fox''" token_b]
        session_token_a
  by (simp add: example_state_def example_fs_def session_entries_def SESSIONS_DIR_def
                os_path_join_def example_env_def token_b_def SEP_def)

text \<open>
  C2 (reset and reload). When the load step of a search succeeds with the passages of the
  session's directory, the document store holds exactly these passages when the pipeline is
  invoked and after the search, whatever it held before: nothing of a prior search is left,
  and the outcome of the search is the rendering of what the pipeline answers on exactly
  these passages.
\<close>

theorem index_reset_and_reload:
  assumes "session_token user_id"
    and "can_make_dir (sessions_dir st) user_id"
    and "load_all env (session_entries env (sessions_dir st) user_id) [] = Inr passages"
  shows "document_store (fst (run_search env st user_id query)) = passages
       \<and> snd (run_search env st user_id query) =
           (case pipeline_run env passages query search_params of
              Inl e \<Rightarrow> Inl e
            | Inr answers \<Rightarrow>
                Inr (if answers \<noteq> [] then join divider (map render_answer answers)
                     else no_results))"
  using assms(2,3)
  by (simp add: document_store_run_search snd_run_search snd_get_user_dir session_entries_def)

theorem index_reset_and_reload_witness:
  "session_token token_b \<and> can_make_dir (sessions_dir stale_state) token_b \<and>
   document_store stale_state = [\<lparr>doc_content = ''stale'', doc_meta = []\<rparr>] \<and>
   document_store (fst (run_search example_env stale_state token_b ''fox'')) = [example_doc]"
proof -
  have c: "can_make_dir (sessions_dir stale_state) token_b"
    by (simp add: can_make_dir_def stale_state_def example_state_def example_fs_def)
  have l: "load_all example_env (session_entries example_env (sessions_dir stale_state) token_b) []
             = Inr [example_doc]"
    by code_simp
  show ?thesis
    using index_reset_and_reload [OF session_token_b c l, of "''fox''"] session_token_b c
    by (simp add: stale_state_def)
qed


text \<open>
  C3 (clear, then list). For a session token whose path is not taken by a regular file,
  \<open>delete_files\<close> succeeds, and afterwards the session directory exists with no entry
  and \<open>list_session_files\<close> returns the empty sequence.
\<close>

theorem clear_then_list_empty:
  assumes "session_token s" and "can_make_dir fs s"
  shows "\<exists>fs' msg. delete_files env fs s = (fs', Inr msg)
           \<and> map_of fs' s = Some (Dir [])
           \<and> list_session_files env fs' s = []"
  using assms(2)
  by (simp add: delete_files_ok map_add_def map_of_delete_same list_session_files_def
                session_entries_def)

theorem clear_then_list_empty_witness:
  "session_token token_b \<and> can_make_dir example_fs token_b \<and>
   list_session_files example_env example_fs token_b
     = [''/tmp/haystack_user_sessions/c41d7e02-95ab-4f6c-8b3a-6e1f0d2a7b58/doc.txt''] \<and>
   list_session_files example_env (fst (delete_files example_env example_fs token_b)) token_b = []"
proof -
  have c: "can_make_dir example_fs token_b"
    by (simp add: can_make_dir_def example_fs_def)
  have l: "list_session_files example_env example_fs token_b
     = [''/tmp/haystack_user_sessions/c41d7e02-95ab-4f6c-8b3a-6e1f0d2a7b58/doc.txt'']"
    by code_simp
  from clear_then_list_empty [OF session_token_b c, of example_env]
  have "list_session_files example_env (fst (delete_files example_env example_fs token_b)) token_b = []"
    by auto
  with session_token_b c l show ?thesis by simp
qed


text \<open>
  C4 (no files, no results). For a session whose directory holds no file and any query, if
  the pipeline answers the empty index with no answer (the contract the spec puts on it),
  \<open>run_search\<close> returns the one message \<open>no_results\<close>, spelled out below, not an
  error and not an empty string.
\<close>

theorem empty_session_no_results:
  assumes "session_token s" and "can_make_dir (sessions_dir st) s"
    and "list_session_files env (sessions_dir st) s = []"
    and "pipeline_run env [] q search_params = Inr []"
  shows "snd (run_search env st s q) = Inr (''Aucun passage trouv'' @ [CHR 0xC3, CHR 0xA9] @ ''.'')"
  using assms(2-4)
  by (simp add: snd_run_search snd_get_user_dir list_session_files_Nil session_entries_def
                no_results_def e_acute_def)

theorem empty_session_no_results_witness:
  "session_token token_a \<and> can_make_dir (sessions_dir example_state) token_a \<and>
   list_session_files example_env (sessions_dir example_state) token_a = [] \<and>
   pipeline_run example_env [] ''fox'' search_params = Inr [] \<and>
   snd (run_search example_env example_state token_a ''fox'')
     = Inr (''Aucun passage trouv'' @ [CHR 0xC3, CHR 0xA9] @ ''.'')"
proof -
  have c: "can_make_dir (sessions_dir example_state) token_a"
    by (simp add: can_make_dir_def example_state_def example_fs_def token_a_def token_b_def)
  have l: "list_session_files example_env (sessions_dir example_state) token_a = []"
    by (simp add: list_session_files_def session_entries_def example_state_def example_fs_def
                  token_a_def token_b_def)
  have p: "pipeline_run example_env [] ''fox'' search_params = Inr []"
    by (simp add: example_env_def)
  show ?thesis
    using empty_session_no_results [OF session_token_a c l p] session_token_a c l p
    by simp
qed


text \<open>
  C5 (selection by extension). In the load step a file is handed to a converter, and its
  passages are what the converter and the preprocessor make of it, if and only if its
  extension, lowered, is \<^verbatim>\<open>.pdf\<close>, \<^verbatim>\<open>.txt\<close> or \<^verbatim>\<open>.docx\<close>. A file with any
  other extension yields no passage and no error, and the whole load is the load of the
  accepted files alone. When the accepted files load, what the load returns, and what
  \<open>run_search\<close> then puts into the document store, is the passages of the accepted files
  of the session, in the order of the walk, and nothing else.
\<close>

theorem extension_selects_files:
  "(accepted fname \<longrightarrow>
      (\<exists>converter. map_of converters (lower (snd (os_path_splitext fname))) = Some converter
         \<and> load_file env (root, fname, data) =
             (case convert env converter (os_path_join root fname) data
                     [(''name'', fname), (''path'', os_path_join root fname)] of
                Inl e \<Rightarrow> Inl e
              | Inr doc \<Rightarrow> process env [doc])))
   \<and> (\<not> accepted fname \<longrightarrow> load_file env (root, fname, data) = Inr [])
   \<and> load_all env entries docs
       = load_all env (filter (\<lambda>(root, fname, data). accepted fname) entries) docs
   \<and> ((\<forall>e \<in> set entries.
          (case e of (root, fname, data) \<Rightarrow> accepted fname) \<longrightarrow>
          load_file env e = Inr (passages e)) \<longrightarrow>
       load_all env entries docs =
         Inr (docs @ concat (map passages
                (filter (\<lambda>(root, fname, data). accepted fname) entries))))
   \<and> (session_token s \<and> can_make_dir (sessions_dir st) s \<and>
       (\<forall>e \<in> set (session_entries env (sessions_dir st) s).
          (case e of (root, fname, data) \<Rightarrow> accepted fname) \<longrightarrow>
          load_file env e = Inr (passages e)) \<longrightarrow>
       document_store (fst (run_search env st s q)) =
         concat (map passages
           (filter (\<lambda>(root, fname, data). accepted fname)
              (session_entries env (sessions_dir st) s))))"
proof (intro conjI impI)
  assume "accepted fname"
  then obtain converter
    where c: "map_of converters (lower (snd (os_path_splitext fname))) = Some converter"
    using converters_accepted [of "lower (snd (os_path_splitext fname))"]
    by (auto simp: accepted_def simp del: set_simps)
  then show "\<exists>converter. map_of converters (lower (snd (os_path_splitext fname))) = Some converter
         \<and> load_file env (root, fname, data) =
             (case convert env converter (os_path_join root fname) data
                     [(''name'', fname), (''path'', os_path_join root fname)] of
                Inl e \<Rightarrow> Inl e
              | Inr doc \<Rightarrow> process env [doc])"
    by (simp add: load_file_def Let_def)
next
  assume "\<not> accepted fname"
  then show "load_file env (root, fname, data) = Inr []"
    by (rule load_file_skipped)
next
  show "load_all env entries docs
       = load_all env (filter (\<lambda>(root, fname, data). accepted fname) entries) docs"
    by (rule load_all_skip)
next
  assume "\<forall>e \<in> set entries.
          (case e of (root, fname, data) \<Rightarrow> accepted fname) \<longrightarrow>
          load_file env e = Inr (passages e)"
  then show "load_all env entries docs =
         Inr (docs @ concat (map passages
                (filter (\<lambda>(root, fname, data). accepted fname) entries)))"
    by (rule load_all_accepted)
next
  assume a: "session_token s \<and> can_make_dir (sessions_dir st) s \<and>
       (\<forall>e \<in> set (session_entries env (sessions_dir st) s).
          (case e of (root, fname, data) \<Rightarrow> accepted fname) \<longrightarrow>
          load_file env e = Inr (passages e))"
  then have "load_all env (session_entries env (sessions_dir st) s) [] =
         Inr ([] @ concat (map passages
                (filter (\<lambda>(root, fname, data). accepted fname)
                   (session_entries env (sessions_dir st) s))))"
    by (intro load_all_accepted) simp
  with a show "document_store (fst (run_search env st s q)) =
         concat (map passages
           (filter (\<lambda>(root, fname, data). accepted fname)
              (session_entries env (sessions_dir st) s)))"
    by (simp add: document_store_run_search snd_get_user_dir session_entries_def)
qed

theorem extension_selects_files_witness:
  "accepted ''notes.TXT'' \<and> \<not> accepted ''notes.md'' \<and>
   load_file example_env (''/s'', ''notes.md'', ''same words'') = Inr [] \<and>
   load_file example_env (''/s'', ''notes.TXT'', ''same words'')
     = Inr [\<lparr>doc_content = ''same words'',
              doc_meta = [(''name'', ''notes.TXT''), (''path'', ''/s/notes.TXT'')]\<rparr>] \<and>
   load_all example_env
       [(''/s'', ''notes.md'', ''same words''), (''/s'', ''notes.TXT'', ''same words'')] []
     = Inr [\<lparr>doc_content = ''same words'',
              doc_meta = [(''name'', ''notes.TXT''), (''path'', ''/s/notes.TXT'')]\<rparr>] \<and>
   document_store (fst (run_search example_env notes_state token_a ''words''))
     = [\<lparr>doc_content = ''same words'',
         doc_meta = [(''name'', ''notes.TXT''),
                     (''path'', ''/tmp/haystack_user_sessions/0b5f1c9e-7a42-4d3b-9e61-2f8a6c0d4e17/notes.TXT'')]\<rparr>]"
proof -
  let ?entries = "[(''/s'', ''notes.md'', ''same words''), (''/s'', ''notes.TXT'', ''same words'')]"
  note t = extension_selects_files
             [where env = example_env and root = "''/s''" and data = "''same words''"
                and entries = ?entries and docs = "[]" and passages = example_passages
                and st = notes_state and s = token_a and q = "''words''"]
  have a: "accepted ''notes.TXT''"
    by code_simp
  have n: "\<not> accepted ''notes.md''"
    by code_simp
  from n t [where fname = "''notes.md''"]
  have skipped: "load_file example_env (''/s'', ''notes.md'', ''same words'') = Inr []"
    by blast
  from a t [where fname = "''notes.TXT''"]
  obtain converter where
    "load_file example_env (''/s'', ''notes.TXT'', ''same words'') =
       (case convert example_env converter (os_path_join ''/s'' ''notes.TXT'') ''same words''
               [(''name'', ''notes.TXT''), (''path'', os_path_join ''/s'' ''notes.TXT'')] of
          Inl e \<Rightarrow> Inl e
        | Inr doc \<Rightarrow> process example_env [doc])"
    by blast
  then have loaded: "load_file example_env (''/s'', ''notes.TXT'', ''same words'')
     = Inr [\<lparr>doc_content = ''same words'',
              doc_meta = [(''name'', ''notes.TXT''), (''path'', ''/s/notes.TXT'')]\<rparr>]"
    by (simp add: example_env_def os_path_join_def SEP_def)
  have h: "\<forall>e \<in> set ?entries.
          (case e of (root, fname, data) \<Rightarrow> accepted fname) \<longrightarrow>
          load_file example_env e = Inr (example_passages e)"
    by (auto simp: example_load_file)
  have "load_all example_env ?entries [] =
         Inr ([] @ concat (map example_passages
                (filter (\<lambda>(root, fname, data). accepted fname) ?entries)))"
    using t [where fname = "''notes.md''", THEN conjunct2, THEN conjunct2, THEN conjunct2,
             THEN conjunct1] h
    by blast
  then have all: "load_all example_env ?entries []
     = Inr [\<lparr>doc_content = ''same words'',
              doc_meta = [(''name'', ''notes.TXT''), (''path'', ''/s/notes.TXT'')]\<rparr>]"
    using a n by (simp add: example_passages_def os_path_join_def SEP_def)
  have c: "can_make_dir (sessions_dir notes_state) token_a"
    by (simp add: can_make_dir_def notes_state_def)
  have e: "session_entries example_env (sessions_dir notes_state) token_a
             = [(''/tmp/haystack_user_sessions/0b5f1c9e-7a42-4d3b-9e61-2f8a6c0d4e17'',
                 ''notes.md'', ''same words''),
                (''/tmp/haystack_user_sessions/0b5f1c9e-7a42-4d3b-9e61-2f8a6c0d4e17'',
                 ''notes.TXT'', ''same words'')]"
    by code_simp
  have h': "\<forall>e \<in> set (session_entries example_env (sessions_dir notes_state) token_a).
          (case e of (root, fname, data) \<Rightarrow> accepted fname) \<longrightarrow>
          load_file example_env e = Inr (example_passages e)"
    by (auto simp: example_load_file)
  have "document_store (fst (run_search example_env notes_state token_a ''words'')) =
         concat (map example_passages
           (filter (\<lambda>(root, fname, data). accepted fname)
              (session_entries example_env (sessions_dir notes_state) token_a)))"
    using t [where fname = "''notes.md''", THEN conjunct2, THEN conjunct2, THEN conjunct2,
             THEN conjunct2] session_token_a c h'
    by blast
  then have store: "document_store (fst (run_search example_env notes_state token_a ''words''))
     = [\<lparr>doc_content = ''same words'',
         doc_meta = [(''name'', ''notes.TXT''),
                     (''path'', ''/tmp/haystack_user_sessions/0b5f1c9e-7a42-4d3b-9e61-2f8a6c0d4e17/notes.TXT'')]\<rparr>]"
    using a n by (simp add: e example_passages_def os_path_join_def SEP_def)
  from a n skipped loaded all store show ?thesis
    by simp
qed

text \<open>
  C7 (fixed parameters). Every search that returns has invoked the pipeline on the reloaded
  store with retriever \<open>top_k = 10\<close> and reader \<open>top_k = 5\<close>, and renders what that
  invocation answered; if the pipeline never answers more than the reader's \<open>top_k\<close>,
  at most 5 blocks are rendered.
\<close>

theorem fixed_pipeline_parameters:
  assumes "session_token s"
    and "\<forall>store query ps answers.
           pipeline_run env store query ps = Inr answers \<longrightarrow> length answers \<le> reader_top_k ps"
    and "run_search env st s q = (st', Inr out)"
  shows "\<exists>answers.
           pipeline_run env (document_store st') q \<lparr>retriever_top_k = 10, reader_top_k = 5\<rparr>
             = Inr answers
         \<and> length (map render_answer answers) \<le> 5
         \<and> out = (if map render_answer answers \<noteq> [] then join divider (map render_answer answers)
                   else no_results)"
proof -
  from assms(3) have o: "snd (run_search env st s q) = Inr out"
    and d: "document_store (fst (run_search env st s q)) = document_store st'"
    by simp_all
  from o obtain user_dir all_docs answers where
    g: "snd (get_user_dir env (sessions_dir st) s) = Inr user_dir"
    and l: "load_all env (os_walk_opt user_dir (map_of (sessions_dir st) s)) [] = Inr all_docs"
    and p: "pipeline_run env all_docs q search_params = Inr answers"
    and out: "out = (if answers \<noteq> [] then join divider (map render_answer answers) else no_results)"
    by (auto simp: snd_run_search split: sum.splits)
  from d g l have "document_store st' = all_docs"
    by (simp add: document_store_run_search)
  with p have p': "pipeline_run env (document_store st') q \<lparr>retriever_top_k = 10, reader_top_k = 5\<rparr> = Inr answers"
    by (simp add: search_params_def)
  with assms(2) have "length answers \<le> 5"
    by fastforce
  with p' out show ?thesis by auto
qed


theorem fixed_pipeline_parameters_witness:
  "session_token token_b \<and>
   run_search example_env example_state token_b ''fox''
     = (\<lparr>sessions_dir = example_fs, document_store = [example_doc]\<rparr>, Inr example_block) \<and>
   (\<exists>answers.
      pipeline_run example_env [example_doc] ''fox'' \<lparr>retriever_top_k = 10, reader_top_k = 5\<rparr>
        = Inr answers
      \<and> length (map render_answer answers) \<le> 5
      \<and> example_block = (if map render_answer answers \<noteq> [] then join divider (map render_answer answers)
                   else no_results))"
  using fixed_pipeline_parameters [OF session_token_b example_pipeline_bounded example_search]
        session_token_b example_search
  by simp

text \<open>
  C6 (overwrite, not duplicate). In a session directory that holds regular files only,
  under distinct names, two calls \<open>add_files s [f1]\<close> and \<open>add_files s [f2]\<close> whose
  files have the same base name both succeed, and the enumeration of the session's files
  then shows exactly one file of that base name, holding what the second call wrote.
\<close>

theorem add_twice_overwrites:
  assumes "session_token s"
    and "session_flat fs s"
    and "os_path_basename (file_name f1) = os_path_basename (file_name f2)"
    and "path_component (os_path_basename (file_name f2))"
  shows "\<exists>fs1 m1 fs2 m2.
           add_files env fs s [f1] = (fs1, Inr m1)
         \<and> add_files env fs1 s [f2] = (fs2, Inr m2)
         \<and> filter (\<lambda>(root, fname, data). fname = os_path_basename (file_name f2))
              (session_entries env fs2 s)
             = [(os_path_join (SESSIONS_DIR env) s, os_path_basename (file_name f2), file_read f2)]"
proof -
  let ?b = "os_path_basename (file_name f2)"
  let ?fs0 = "fst (get_user_dir env fs s)"
  from assms(2) have c: "can_make_dir fs s"
    by (auto simp: session_flat_def can_make_dir_def split: option.splits node.splits)
  from assms(2,4) have w: "writable fs s ?b"
    by (auto simp: session_flat_def writable_def path_component_def flat_def list_all_iff
             split: option.splits node.splits dest!: map_of_SomeD)
  from add_files_ok [OF c, of "[f1]" env] w assms(3) obtain d where
    d: "map_of ?fs0 s = Some (Dir d)"
    and a1: "add_files env fs s [f1] = (AList.update s (Dir (put d f1)) ?fs0, Inr (files_added 1))"
    by auto
  let ?fs1 = "AList.update s (Dir (put d f1)) ?fs0"
  have m1: "map_of ?fs1 s = Some (Dir (put d f1))"
    by (simp add: update_conv')
  from d assms(2) have fd: "flat d \<and> distinct (map fst d)"
    by (auto simp: map_of_get_user_dir session_flat_def flat_def split: if_splits option.splits)
  have c1: "can_make_dir ?fs1 s"
    by (simp add: can_make_dir_def m1)
  from fd have "flat (put d f1)" by (simp add: flat_put)
  with assms(4) m1 have w1: "writable ?fs1 s ?b"
    by (auto simp: writable_def path_component_def flat_def list_all_iff
             split: option.splits node.splits dest!: map_of_SomeD)
  have g1: "fst (get_user_dir env ?fs1 s) = ?fs1"
    by (simp add: get_user_dir_Dir [OF m1])
  from add_files_ok [OF c1, of "[f2]" env] w1 m1 g1
  have a2: "add_files env ?fs1 s [f2]
              = (AList.update s (Dir (put (put d f1) f2)) ?fs1, Inr (files_added 1))"
    by auto
  let ?fs2 = "AList.update s (Dir (put (put d f1) f2)) ?fs1"
  have m2: "map_of ?fs2 s = Some (Dir (put d f2))"
    by (simp add: update_conv' put_put [OF assms(3)])
  from fd have "flat (put d f2)" by (simp add: flat_put)
  then have "session_entries env ?fs2 s = nondirs (os_path_join (SESSIONS_DIR env) s) (put d f2)"
    by (simp only: session_entries_def m2 os_walk_opt.simps flat_walk)
  with fd have "filter (\<lambda>(root, fname, data). fname = ?b) (session_entries env ?fs2 s)
             = [(os_path_join (SESSIONS_DIR env) s, ?b, file_read f2)]"
    by (simp add: put_def nondirs_update_unique)
  with a1 a2 show ?thesis by blast
qed


theorem add_twice_overwrites_witness:
  "session_token token_b \<and> session_flat example_fs token_b \<and>
   os_path_basename (file_name first_upload) = os_path_basename (file_name second_upload) \<and>
   path_component (os_path_basename (file_name second_upload)) \<and>
   filter (\<lambda>(root, fname, data). fname = ''doc.txt'')
     (session_entries example_env
        (fst (add_files example_env
                (fst (add_files example_env example_fs token_b [first_upload]))
                token_b [second_upload]))
        token_b)
     = [(''/tmp/haystack_user_sessions/c41d7e02-95ab-4f6c-8b3a-6e1f0d2a7b58'', ''doc.txt'', ''new'')]"
proof -
  have b: "os_path_basename (file_name second_upload) = ''doc.txt''"
    by (simp add: second_upload_def os_path_basename_def SEP_def)
  have e: "os_path_basename (file_name first_upload) = os_path_basename (file_name second_upload)"
    by (simp add: first_upload_def second_upload_def os_path_basename_def SEP_def)
  have p: "path_component (os_path_basename (file_name second_upload))"
    by (simp add: b path_component_def SEP_def)
  have f: "session_flat example_fs token_b"
    by (simp add: session_flat_def example_fs_def flat_def)
  have r: "os_path_join (SESSIONS_DIR example_env) token_b
             = ''/tmp/haystack_user_sessions/c41d7e02-95ab-4f6c-8b3a-6e1f0d2a7b58''"
    by (simp add: SESSIONS_DIR_def os_path_join_def example_env_def token_b_def SEP_def)
  from add_twice_overwrites [OF session_token_b f e p, of example_env]
  obtain fs1 m1 fs2 m2 where
    "add_files example_env example_fs token_b [first_upload] = (fs1, Inr m1)"
    "add_files example_env fs1 token_b [second_upload] = (fs2, Inr m2)"
    "filter (\<lambda>(root, fname, data). fname = os_path_basename (file_name second_upload))
       (session_entries example_env fs2 token_b)
      = [(os_path_join (SESSIONS_DIR example_env) token_b,
          os_path_basename (file_name second_upload), file_read second_upload)]"
    by blast
  then have "filter (\<lambda>(root, fname, data). fname = ''doc.txt'')
     (session_entries example_env
        (fst (add_files example_env
                (fst (add_files example_env example_fs token_b [first_upload]))
                token_b [second_upload]))
        token_b)
     = [(''/tmp/haystack_user_sessions/c41d7e02-95ab-4f6c-8b3a-6e1f0d2a7b58'', ''doc.txt'', ''new'')]"
    by (simp add: b r) (simp add: second_upload_def)
  with session_token_b f e p show ?thesis
    by simp
qed


text \<open>
  C8 (rendering). When the pipeline answers with a non-empty sequence, \<open>run_search\<close>
  returns the blocks of the answers in order, each block after the first preceded by the
  divider line \<^verbatim>\<open>---\<close>. A block is the label \<^verbatim>\<open>**Extrait :**\<close>, then the answer's
  context without the whitespace characters it begins and ends with (those of
  \<^verbatim>\<open>str.isspace\<close>, Unicode ones included) and with every newline turned into a space,
  then the labels \<^verbatim>\<open>**Fichier :**\<close> and \<^verbatim>\<open>**Chemin :**\<close> with the \<^verbatim>\<open>name\<close> and
  \<^verbatim>\<open>path\<close> of the answer's metadata.
\<close>

theorem rendered_blocks:
  assumes "session_token s"
    and "run_search env st s q = (st', Inr out)"
    and "pipeline_run env (document_store st') q search_params = Inr answers"
    and "answers \<noteq> []"
  shows "out = render_answer (hd answers)
                 @ concat (map (\<lambda>a. [NL] @ ''---'' @ [NL] @ render_answer a) (tl answers))
       \<and> (\<forall>a \<in> set answers. \<exists>pre text post.
             set pre \<subseteq> set whitespace \<and> set post \<subseteq> set whitespace
           \<and> ans_context a = concat pre @ text @ concat post
           \<and> (\<forall>w \<in> set whitespace. \<not> startswith text w \<and> \<not> endswith text w)
           \<and> render_answer a =
               ''**Extrait :** '' @ map (\<lambda>c. if c = NL then CHR '' '' else c) text @ [NL, NL] @
               ''**Fichier :** '' @ str_opt (map_of (ans_meta a) ''name'') @ [NL] @
               ''**Chemin :** '' @ str_opt (map_of (ans_meta a) ''path''))"
proof
  from assms(2) have o: "snd (run_search env st s q) = Inr out"
    and d: "document_store (fst (run_search env st s q)) = document_store st'"
    by simp_all
  from o obtain user_dir all_docs answers' where
    g: "snd (get_user_dir env (sessions_dir st) s) = Inr user_dir"
    and l: "load_all env (os_walk_opt user_dir (map_of (sessions_dir st) s)) [] = Inr all_docs"
    and p: "pipeline_run env all_docs q search_params = Inr answers'"
    and out: "out = (if answers' \<noteq> [] then join divider (map render_answer answers')
                     else no_results)"
    by (auto simp: snd_run_search split: sum.splits)
  from d g l have "document_store st' = all_docs"
    by (simp add: document_store_run_search)
  with p assms(3) have "answers' = answers" by simp
  with out assms(4) have "out = join divider (map render_answer answers)" by simp
  with assms(4) show "out = render_answer (hd answers)
                 @ concat (map (\<lambda>a. [NL] @ ''---'' @ [NL] @ render_answer a) (tl answers))"
    by (cases answers) (simp_all add: join_concat divider_def comp_def)
next
  show "\<forall>a \<in> set answers. \<exists>pre text post.
             set pre \<subseteq> set whitespace \<and> set post \<subseteq> set whitespace
           \<and> ans_context a = concat pre @ text @ concat post
           \<and> (\<forall>w \<in> set whitespace. \<not> startswith text w \<and> \<not> endswith text w)
           \<and> render_answer a =
               ''**Extrait :** '' @ map (\<lambda>c. if c = NL then CHR '' '' else c) text @ [NL, NL] @
               ''**Fichier :** '' @ str_opt (map_of (ans_meta a) ''name'') @ [NL] @
               ''**Chemin :** '' @ str_opt (map_of (ans_meta a) ''path'')"
  proof
    fix a :: answer
    from strip_spec [of "ans_context a"] obtain pre post where
      1: "set pre \<subseteq> set whitespace" "set post \<subseteq> set whitespace"
         "ans_context a = concat pre @ strip (ans_context a) @ concat post"
         "\<forall>w \<in> set whitespace. \<not> startswith (strip (ans_context a)) w
                                  \<and> \<not> endswith (strip (ans_context a)) w"
      by blast
    have 2: "render_answer a =
               ''**Extrait :** '' @
               map (\<lambda>c. if c = NL then CHR '' '' else c) (strip (ans_context a)) @ [NL, NL] @
               ''**Fichier :** '' @ str_opt (map_of (ans_meta a) ''name'') @ [NL] @
               ''**Chemin :** '' @ str_opt (map_of (ans_meta a) ''path'')"
      by (simp add: render_answer_def replace_def)
    from 1 2 show "\<exists>pre text post.
             set pre \<subseteq> set whitespace \<and> set post \<subseteq> set whitespace
           \<and> ans_context a = concat pre @ text @ concat post
           \<and> (\<forall>w \<in> set whitespace. \<not> startswith text w \<and> \<not> endswith text w)
           \<and> render_answer a =
               ''**Extrait :** '' @ map (\<lambda>c. if c = NL then CHR '' '' else c) text @ [NL, NL] @
               ''**Fichier :** '' @ str_opt (map_of (ans_meta a) ''name'') @ [NL] @
               ''**Chemin :** '' @ str_opt (map_of (ans_meta a) ''path'')"
      by blast
  qed
qed

theorem rendered_blocks_witness:
  "session_token token_a \<and>
   snd (run_search example_env spaced_state token_a ''fox'') = Inr spaced_out \<and>
   spaced_out = render_answer (hd spaced_answers)
                 @ concat (map (\<lambda>a. [NL] @ ''---'' @ [NL] @ render_answer a) (tl spaced_answers))"
proof -
  have n: "spaced_answers \<noteq> []"
    by (simp add: spaced_answers_def spaced_docs_def)
  have p: "pipeline_run example_env
             (document_store \<lparr>sessions_dir = sessions_dir spaced_state, document_store = spaced_docs\<rparr>)
             ''fox'' search_params = Inr spaced_answers"
    by (simp add: spaced_pipeline)
  from rendered_blocks [OF session_token_a spaced_search p n] session_token_a
  show ?thesis
    by (simp add: spaced_search)
qed


text \<open>
  C9 (status message). For a session token whose path is free or a directory, and uploads
  whose base names can be written there, \<open>add_files\<close> succeeds and returns the decimal
  count of the uploads followed by \<^verbatim>\<open> fichier(s) ajout\<close>, e acute, \<^verbatim>\<open>(s).\<close>; each
  upload is then stored under its base name in the session directory.
\<close>

theorem add_files_reports_count:
  assumes "session_token s" and "can_make_dir fs s"
    and "\<forall>f \<in> set uploads. writable fs s (os_path_basename (file_name f))"
  shows "\<exists>fs'. add_files env fs s uploads
                  = (fs', Inr (str_nat (length uploads) @ '' fichier(s) ajout''
                               @ [CHR 0xC3, CHR 0xA9] @ ''(s).''))
           \<and> decimal (str_nat (length uploads)) = length uploads
           \<and> (\<forall>f \<in> set uploads. stored fs' s (os_path_basename (file_name f)) \<noteq> None)"
proof -
  from add_files_ok [OF assms(2,3)] obtain d where
    a: "add_files env fs s uploads
               = (AList.update s (Dir (foldl put d uploads)) (fst (get_user_dir env fs s)),
                  Inr (files_added (length uploads)))"
    by blast
  have "\<forall>f \<in> set uploads.
          stored (AList.update s (Dir (foldl put d uploads)) (fst (get_user_dir env fs s))) s
            (os_path_basename (file_name f)) \<noteq> None"
  proof
    fix f assume "f \<in> set uploads"
    from upload_is_file [OF this, of d]
    show "stored (AList.update s (Dir (foldl put d uploads)) (fst (get_user_dir env fs s))) s
            (os_path_basename (file_name f)) \<noteq> None"
      by (auto simp: stored_def update_conv')
  qed
  with a show ?thesis
    by (simp add: files_added_def e_acute_def decimal_str_nat)
qed


theorem add_files_reports_count_witness:
  "session_token token_a \<and> can_make_dir example_fs token_a \<and>
   add_files example_env example_fs token_a example_uploads
     = (example_fs @ [(token_a, Dir [(''notes.txt'', File ''first''), (''notes.md'', File ''second'')])],
        Inr (''2 fichier(s) ajout'' @ [CHR 0xC3, CHR 0xA9] @ ''(s).''))"
proof -
  have c: "can_make_dir example_fs token_a"
    by (simp add: can_make_dir_def example_fs_def token_a_def token_b_def)
  have w: "\<forall>f \<in> set example_uploads. writable example_fs token_a (os_path_basename (file_name f))"
    by (simp add: example_uploads_def writable_def os_path_basename_def SEP_def example_fs_def
                  token_a_def token_b_def)
  have l: "str_nat (length example_uploads) = ''2''"
    by code_simp
  have f: "fst (add_files example_env example_fs token_a example_uploads)
             = example_fs @ [(token_a, Dir [(''notes.txt'', File ''first''), (''notes.md'', File ''second'')])]"
    by code_simp
  from add_files_reports_count [OF session_token_a c w, of example_env] obtain fs' where
    "add_files example_env example_fs token_a example_uploads
       = (fs', Inr (str_nat (length example_uploads) @ '' fichier(s) ajout''
                               @ [CHR 0xC3, CHR 0xA9] @ ''(s).''))"
    by blast
  with l f session_token_a c show ?thesis
    by simp
qed


end
